theory Spec2Isabelle
  imports Main "HOL-Library.Sublist"
begin

unbundle bit_operations_syntax

section \<open>JavaScript values and objects\<close>

text \<open>
  Attribute values as the table definitions of the deployment code type them
  (\<open>type: "S"\<close>, \<open>type: "N"\<close>): strings and numbers. A JavaScript object, and so a stored
  item, is a finite map from property names to values; the object spread
  \<open>{...a, k: v}\<close> is \<open>a(k \<mapsto> v)\<close> and \<open>{k: v, ...a}\<close> is \<open>[k \<mapsto> v] ++ a\<close>
  (the later property wins).
\<close>

datatype attr = S string | N int

type_synonym item = "string \<rightharpoonup> attr"

text \<open>
  \<open>ESEvent\<close> and \<open>CompiledView\<close> are declared in the event-stack library. Of their
  declarations the adapter reads \<open>ev.id\<close> and \<open>compiledView.eventId\<close>, both numbers
  (sequence numbers, so integers here); every other property travels in the spread and
  is kept here as a map.
\<close>

record ESEvent =
  id_ev :: int
  payload_ev :: item

record CompiledView =
  eventId :: int
  payload_view :: item

definition object_ev :: "ESEvent \<Rightarrow> item" where
  "object_ev ev = (payload_ev ev)(''id'' \<mapsto> N (id_ev ev))"

definition object_view :: "CompiledView \<Rightarrow> item" where
  "object_view cv = (payload_view cv)(''eventId'' \<mapsto> N (eventId cv))"

text \<open>\<open>s.indexOf(p)\<close>: the first position of \<open>p\<close> in \<open>s\<close>, or \<open>-1\<close>.\<close>

fun indexOf_from :: "string \<Rightarrow> string \<Rightarrow> int \<Rightarrow> int" where
  "indexOf_from [] p i = (if p = [] then i else - 1)"
| "indexOf_from (c # s) p i = (if prefix p (c # s) then i else indexOf_from s p (i + 1))"

definition indexOf :: "string \<Rightarrow> string \<Rightarrow> int" where
  "indexOf s p = indexOf_from s p 0"

text \<open>A number used as a condition is true unless it is zero.\<close>

definition truthy :: "int \<Rightarrow> bool" where
  "truthy n = (n \<noteq> 0)"

section \<open>The DynamoDB operations the adapter calls\<close>

text \<open>
  The store is a remote service, so its tables are explicit state: a table is the list
  of its items, and the primary key of an item is read from the item itself through the
  key schema of the table. The deployment code declares the events table with hash key
  \<open>namespace\<close> (S) and range key \<open>id\<close> (N), and the views table with hash key
  \<open>namespace\<close> (S) and range key \<open>viewName\<close> (S). An item whose key attributes are
  missing or of another type has no key; the service rejects it.
\<close>

type_synonym table = "item list"

definition events_key :: "item \<Rightarrow> (string \<times> int) option" where
  "events_key it =
     (case it ''namespace'' of
        Some (S ns) \<Rightarrow> (case it ''id'' of Some (N i) \<Rightarrow> Some (ns, i) | _ \<Rightarrow> None)
      | _ \<Rightarrow> None)"

definition views_key :: "item \<Rightarrow> (string \<times> string) option" where
  "views_key it =
     (case it ''namespace'' of
        Some (S ns) \<Rightarrow> (case it ''viewName'' of Some (S v) \<Rightarrow> Some (ns, v) | _ \<Rightarrow> None)
      | _ \<Rightarrow> None)"

text \<open>GetItem: the item stored under a key, if any.\<close>

definition ddb_get :: "(item \<Rightarrow> 'k option) \<Rightarrow> table \<Rightarrow> 'k \<Rightarrow> item option" where
  "ddb_get key tbl k = find (\<lambda>r. key r = Some k) tbl"

text \<open>Writing an item replaces whatever was stored under its key.\<close>

definition ddb_write :: "(item \<Rightarrow> 'k option) \<Rightarrow> table \<Rightarrow> item \<Rightarrow> table" where
  "ddb_write key tbl it = it # filter (\<lambda>r. key r \<noteq> key it) tbl"

text \<open>
  Condition expressions, evaluated against the item currently stored under the key of
  the request (\<open>None\<close> when there is none). A comparison with an attribute that is absent
  or of another type than the operand is false.
\<close>

datatype cond =
    attribute_not_exists string
  | attribute_exists string
  | attr_less string attr
  | cond_or cond cond

definition char_less :: "char \<Rightarrow> char \<Rightarrow> bool" where
  "char_less a b = ((of_char a :: nat) < of_char b)"

fun attr_lt :: "attr \<Rightarrow> attr \<Rightarrow> bool" where
  "attr_lt (N x) (N y) = (x < y)"
| "attr_lt (S x) (S y) = lexordp char_less x y"
| "attr_lt _ _ = False"

fun holds :: "cond \<Rightarrow> item option \<Rightarrow> bool" where
  "holds (attribute_not_exists a) None = True"
| "holds (attribute_not_exists a) (Some it) = (it a = None)"
| "holds (attribute_exists a) None = False"
| "holds (attribute_exists a) (Some it) = (it a \<noteq> None)"
| "holds (attr_less a v) None = False"
| "holds (attr_less a v) (Some it) = (case it a of None \<Rightarrow> False | Some x \<Rightarrow> attr_lt x v)"
| "holds (cond_or c d) r = (holds c r \<or> holds d r)"

text \<open>
  The exceptions of the service, with the message text it sends. A cancelled transaction
  lists one reason code per transaction item, in the order of the request. The text of a
  validation failure names the offending key attribute; its wording here stands for all
  of them.
\<close>

datatype reason = ConditionalCheckFailed | NoReason

datatype exn =
    ConditionalCheckFailedException
  | TransactionCanceledException "reason list"
  | ValidationException

fun code_of :: "reason \<Rightarrow> string" where
  "code_of ConditionalCheckFailed = ''ConditionalCheckFailed''"
| "code_of NoReason = ''None''"

fun join :: "string list \<Rightarrow> string" where
  "join [] = []"
| "join [x] = x"
| "join (x # y # zs) = x @ '', '' @ join (y # zs)"

fun message :: "exn \<Rightarrow> string" where
  "message ConditionalCheckFailedException = ''The conditional request failed''"
| "message (TransactionCanceledException rs) =
     ''Transaction cancelled, please refer cancellation reasons for specific reasons [''
       @ join (map code_of rs) @ '']''"
| "message ValidationException =
     ''One or more parameter values were invalid: Missing the key or type mismatch''"

text \<open>PutItem with a ConditionExpression.\<close>

definition ddb_put ::
  "(item \<Rightarrow> 'k option) \<Rightarrow> table \<Rightarrow> item \<Rightarrow> cond \<Rightarrow> (exn + unit) \<times> table" where
  "ddb_put key tbl it c =
     (case key it of
        None \<Rightarrow> (Inl ValidationException, tbl)
      | Some k \<Rightarrow>
          if holds c (ddb_get key tbl k) then (Inr (), ddb_write key tbl it)
          else (Inl ConditionalCheckFailedException, tbl))"

text \<open>
  TransactWriteItems: every condition is evaluated on the table as it is before the
  transaction; when all hold, all the Puts are applied, otherwise nothing is written and
  the exception carries one reason per transaction item.
\<close>

datatype transact_item = Put item cond | ConditionCheck item cond

fun target :: "transact_item \<Rightarrow> item" where
  "target (Put it c) = it"
| "target (ConditionCheck k c) = k"

fun condition :: "transact_item \<Rightarrow> cond" where
  "condition (Put it c) = c"
| "condition (ConditionCheck k c) = c"

definition reason_of :: "(item \<Rightarrow> 'k option) \<Rightarrow> table \<Rightarrow> transact_item \<Rightarrow> reason" where
  "reason_of key tbl ti =
     (case key (target ti) of
        None \<Rightarrow> NoReason
      | Some k \<Rightarrow> if holds (condition ti) (ddb_get key tbl k) then NoReason
                  else ConditionalCheckFailed)"

fun apply_item :: "(item \<Rightarrow> 'k option) \<Rightarrow> table \<Rightarrow> transact_item \<Rightarrow> table" where
  "apply_item key tbl (Put it c) = ddb_write key tbl it"
| "apply_item key tbl (ConditionCheck k c) = tbl"

definition ddb_transactWrite ::
  "(item \<Rightarrow> 'k option) \<Rightarrow> table \<Rightarrow> transact_item list \<Rightarrow> (exn + unit) \<times> table" where
  "ddb_transactWrite key tbl tis =
     (if list_ex (\<lambda>ti. key (target ti) = None) tis then (Inl ValidationException, tbl)
      else let rs = map (reason_of key tbl) tis
           in if list_all (\<lambda>r. r = NoReason) rs then (Inr (), foldl (apply_item key) tbl tis)
              else (Inl (TransactionCanceledException rs), tbl))"

text \<open>
  Query on the events table: the items of one partition whose range key satisfies the
  key condition, ordered by the range key (ascending when \<open>ScanIndexForward\<close> is true or
  absent, descending when it is false), cut to \<open>Limit\<close> items when a limit is given.

  One response carries one page of that result: the service adds items in order while
  the data it has processed so far is under 1 MB, and leaves the rest to a further
  request (\<open>LastEvaluatedKey\<close>). The adapter reads \<open>Items\<close> of the one response and sends
  no further request, so \<open>ddb_query\<close> is that first page. How many bytes the service
  counts for an item is a parameter, \<open>bytes\<close>.
\<close>

definition page_limit :: nat where
  "page_limit = 1048576"

fun one_page :: "(item \<Rightarrow> nat) \<Rightarrow> nat \<Rightarrow> item list \<Rightarrow> item list" where
  "one_page bytes used [] = []"
| "one_page bytes used (x # xs) =
     (if used < page_limit then x # one_page bytes (used + bytes x) xs else [])"

definition range_of :: "item \<Rightarrow> int" where
  "range_of it = (case events_key it of Some (ns, i) \<Rightarrow> i | None \<Rightarrow> 0)"

definition in_partition :: "string \<Rightarrow> (int \<Rightarrow> bool) \<Rightarrow> item \<Rightarrow> bool" where
  "in_partition ns p it = (case events_key it of Some (h, i) \<Rightarrow> h = ns \<and> p i | None \<Rightarrow> False)"

definition ddb_query ::
  "(item \<Rightarrow> nat) \<Rightarrow> table \<Rightarrow> string \<Rightarrow> (int \<Rightarrow> bool) \<Rightarrow> bool \<Rightarrow> nat option \<Rightarrow> item list" where
  "ddb_query bytes tbl ns p forward limit =
     (let ordered = sort_key range_of (filter (in_partition ns p) tbl);
          directed = (if forward then ordered else rev ordered)
      in one_page bytes 0 (case limit of None \<Rightarrow> directed | Some n \<Rightarrow> take n directed))"

section \<open>createDDBStack\<close>

datatype DynamoDBDocument = DynamoDBDocument (region: string)

record 'c DDBOptions =
  ddb :: 'c
  tablename :: string
  namespace :: string

type_synonym DDBStackOptions = "DynamoDBDocument DDBOptions"

type_synonym DDBViewCacheOptions = "DynamoDBDocument option DDBOptions"

text \<open>
  Every function of a stack works on the table named by \<open>options.tablename\<close>; that table
  is the state passed in and returned.
\<close>

definition event_item :: "DDBStackOptions \<Rightarrow> ESEvent \<Rightarrow> item" where
  "event_item options ev = (object_ev ev)(''namespace'' \<mapsto> S (namespace options))"

definition transactItems :: "DDBStackOptions \<Rightarrow> ESEvent \<Rightarrow> transact_item list" where
  "transactItems options ev =
     [Put (event_item options ev) (attribute_not_exists ''namespace'')]
     @ (if id_ev ev \<noteq> 0
        then [ConditionCheck [''namespace'' \<mapsto> S (namespace options), ''id'' \<mapsto> N (id_ev ev - 1)]
                (attribute_exists ''namespace'')]
        else [])"

definition commitEvent ::
  "DDBStackOptions \<Rightarrow> table \<Rightarrow> ESEvent \<Rightarrow> (exn + unit) \<times> table" where
  "commitEvent options tbl ev =
     (if id_ev ev < 0 then (Inr (), tbl)
      else ddb_transactWrite events_key tbl (transactItems options ev))"

text \<open>
  The catch block of \<open>commitEvent\<close> writes to the console and throws the exception again
  unchanged, so the result above is the result of the transaction. The two tests of the
  catch block on the message are kept as functions of their own.
\<close>

definition logs_already_exists :: "exn \<Rightarrow> bool" where
  "logs_already_exists ex = truthy (NOT (indexOf (message ex) ''[ConditionalCheckFailed''))"

definition logs_too_far_ahead :: "exn \<Rightarrow> bool" where
  "logs_too_far_ahead ex = truthy (NOT (indexOf (message ex) ''ConditionalCheckFailed]''))"

text \<open>
  \<open>commitAnonymousEvent\<close> awaits twice: first the query for the tail, then the
  transaction of \<open>commitEvent\<close>. Other writers may run between the two, so the model takes
  the table as the query saw it (\<open>seen\<close>) and the table the transaction meets (\<open>tbl\<close>);
  a call nobody interferes with has \<open>seen = tbl\<close>. The query returns items that have a key,
  so \<open>lastEvent.id\<close> is a number whenever there is a last event.
\<close>

definition nextEventId :: "(item \<Rightarrow> nat) \<Rightarrow> DDBStackOptions \<Rightarrow> table \<Rightarrow> int" where
  "nextEventId bytes options seen =
     (let res = ddb_query bytes seen (namespace options) (\<lambda>i. True) False (Some 1);
          lastEvent = (case res of [] \<Rightarrow> None | x # _ \<Rightarrow> Some x)
      in (case lastEvent of
            None \<Rightarrow> - 1
          | Some e \<Rightarrow> (case e ''id'' of Some (N i) \<Rightarrow> i | _ \<Rightarrow> - 1)) + 1)"

definition commitAnonymousEvent ::
  "(item \<Rightarrow> nat) \<Rightarrow> DDBStackOptions \<Rightarrow> table \<Rightarrow> table \<Rightarrow> ESEvent \<Rightarrow> (exn + unit) \<times> table" where
  "commitAnonymousEvent bytes options seen tbl ev =
     commitEvent options tbl (ev\<lparr>id_ev := nextEventId bytes options seen\<rparr>)"

definition getEvent :: "DDBStackOptions \<Rightarrow> table \<Rightarrow> int \<Rightarrow> item option" where
  "getEvent options tbl i = ddb_get events_key tbl (namespace options, i)"

text \<open>
  \<open>slice(start?, end?)\<close>: the key condition is \<open>#id >= :start\<close> and nothing else; the
  second parameter occurs nowhere in the body. The result is \<open>res.Items\<close> of the one
  response. With \<open>start\<close> undefined the request has no value for \<open>:start\<close> and is refused.
\<close>

definition slice ::
  "(item \<Rightarrow> nat) \<Rightarrow> DDBStackOptions \<Rightarrow> table \<Rightarrow> int option \<Rightarrow> int option \<Rightarrow> exn + item list" where
  "slice bytes options tbl start end_id =
     (case start of
        None \<Rightarrow> Inl ValidationException
      | Some s \<Rightarrow> Inr (ddb_query bytes tbl (namespace options) (\<lambda>i. s \<le> i) True None))"

section \<open>ddbStore\<close>

text \<open>
  \<open>sharedDBB\<close> is a variable of the module, \<open>stacks\<close> belongs to one store; both are
  passed and returned. A stack handle is determined by the options it closes over.
\<close>

definition name :: "string \<Rightarrow> string \<Rightarrow> string" where
  "name stackSet stack = stackSet @ ''|'' @ stack"

type_synonym store_state = "DynamoDBDocument option \<times> (string \<rightharpoonup> DDBStackOptions)"

definition getStack :: "store_state \<Rightarrow> string \<Rightarrow> string \<Rightarrow> DDBStackOptions option" where
  "getStack st stackSet stackName = (snd st) (name stackSet stackName)"

definition createStack ::
  "string \<Rightarrow> store_state \<Rightarrow> string \<Rightarrow> string \<Rightarrow> DDBStackOptions \<times> store_state" where
  "createStack tn st stackSet stackName =
     (let nm = name stackSet stackName;
          sharedDBB = (case fst st of Some d \<Rightarrow> d | None \<Rightarrow> DynamoDBDocument ''us-west-2'');
          stack = \<lparr>ddb = sharedDBB, tablename = tn, namespace = nm\<rparr>
      in (stack, (Some sharedDBB, (snd st)(nm \<mapsto> stack))))"

definition getOrCreateStack ::
  "string \<Rightarrow> store_state \<Rightarrow> string \<Rightarrow> string \<Rightarrow> DDBStackOptions \<times> store_state" where
  "getOrCreateStack tn st stackSet stackName =
     (case getStack st stackSet stackName of
        Some existingStack \<Rightarrow> (existingStack, st)
      | None \<Rightarrow> createStack tn st stackSet stackName)"

section \<open>ddbViewCache\<close>

text \<open>
  \<open>options.ddb = options.ddb ?? sharedDBB\<close> runs once, when the cache is made; both may
  be undefined, and then every \<open>options.ddb?.\<close> call below is skipped.
\<close>

definition ddbViewCache ::
  "DynamoDBDocument option \<Rightarrow> DDBViewCacheOptions \<Rightarrow> DDBViewCacheOptions" where
  "ddbViewCache sharedDBB options =
     options\<lparr>ddb := (case ddb options of Some d \<Rightarrow> Some d | None \<Rightarrow> sharedDBB)\<rparr>"

definition getFromCache :: "DDBViewCacheOptions \<Rightarrow> table \<Rightarrow> string \<Rightarrow> item option" where
  "getFromCache options tbl identifier =
     (case ddb options of
        None \<Rightarrow> None
      | Some d \<Rightarrow> ddb_get views_key tbl (namespace options, identifier))"

definition cache_item :: "DDBViewCacheOptions \<Rightarrow> string \<Rightarrow> CompiledView \<Rightarrow> item" where
  "cache_item options identifier compiledView =
     [''namespace'' \<mapsto> S (namespace options), ''viewName'' \<mapsto> S identifier]
       ++ object_view compiledView"

definition updateCache ::
  "DDBViewCacheOptions \<Rightarrow> table \<Rightarrow> string \<Rightarrow> CompiledView \<Rightarrow> (exn + unit) \<times> table" where
  "updateCache options tbl identifier compiledView =
     (case ddb options of
        None \<Rightarrow> (Inr (), tbl)
      | Some d \<Rightarrow>
          (case ddb_put views_key tbl (cache_item options identifier compiledView)
                  (cond_or (attribute_not_exists ''namespace'')
                     (attr_less ''eventId'' (N (eventId compiledView)))) of
             (Inr u, tbl') \<Rightarrow> (Inr (), tbl')
           | (Inl ex, tbl') \<Rightarrow>
               if truthy (NOT (indexOf (message ex) ''ConditionalCheckFailed''))
               then (Inr (), tbl') else (Inl ex, tbl')))"

section \<open>Writers of one events table\<close>

text \<open>
  A history of the events table: each step is one append by some stack. \<open>AppendAt\<close> is a
  call of \<open>commitEvent\<close>. \<open>AppendNext options ev d\<close> is a call of \<open>commitAnonymousEvent\<close>
  whose tail query saw the table as it was \<open>d\<close> steps before its transaction runs
  (\<open>d = 0\<close>: nobody wrote in between), which is how racing writers interleave.
\<close>

datatype step = AppendAt DDBStackOptions ESEvent | AppendNext DDBStackOptions ESEvent nat

fun snapshot :: "table \<Rightarrow> table list \<Rightarrow> nat \<Rightarrow> table" where
  "snapshot cur past 0 = cur"
| "snapshot cur [] (Suc d) = cur"
| "snapshot cur (p # past) (Suc d) = snapshot p past d"

fun exec :: "(item \<Rightarrow> nat) \<Rightarrow> table \<times> table list \<Rightarrow> step \<Rightarrow> table \<times> table list" where
  "exec bytes (cur, past) (AppendAt options ev) =
     (snd (commitEvent options cur ev), cur # past)"
| "exec bytes (cur, past) (AppendNext options ev d) =
     (snd (commitAnonymousEvent bytes options (snapshot cur past d) cur ev), cur # past)"

definition run :: "(item \<Rightarrow> nat) \<Rightarrow> step list \<Rightarrow> table" where
  "run bytes steps = fst (foldl (exec bytes) ([], []) steps)"

text \<open>The ids stored for a namespace, one per stored item, in storage order.\<close>

definition stored_ids :: "string \<Rightarrow> table \<Rightarrow> int list" where
  "stored_ids ns tbl = map range_of (filter (in_partition ns (\<lambda>i. True)) tbl)"

text \<open>
  The invariant of a stream: no id is stored twice, and the ids stored are exactly
  \<open>0, \<dots>, n - 1\<close> for the number \<open>n\<close> of stored events.
\<close>

definition gap_free :: "string \<Rightarrow> table \<Rightarrow> bool" where
  "gap_free ns tbl \<longleftrightarrow>
     distinct (stored_ids ns tbl)
     \<and> set (stored_ids ns tbl) = {0..<int (length (stored_ids ns tbl))}"

section \<open>Callers of one view cache table\<close>

text \<open>
  The \<open>eventId\<close> stored under a key of the views table, and a sequence of \<open>updateCache\<close>
  calls (by any caches, for any identifiers) threaded through the table.
\<close>

definition stored_eventId :: "table \<Rightarrow> string \<times> string \<Rightarrow> int option" where
  "stored_eventId tbl k =
     (case ddb_get views_key tbl k of
        None \<Rightarrow> None
      | Some it \<Rightarrow> (case it ''eventId'' of Some (N e) \<Rightarrow> Some e | _ \<Rightarrow> None))"

fun updates :: "table \<Rightarrow> (DDBViewCacheOptions \<times> string \<times> CompiledView) list \<Rightarrow> table" where
  "updates tbl [] = tbl"
| "updates tbl ((options, identifier, compiledView) # calls) =
     updates (snd (updateCache options tbl identifier compiledView)) calls"

section \<open>Sample values\<close>

text \<open>Two measures of the store: every item counts 1 KB, every item counts 256 KB.\<close>

abbreviation small :: "item \<Rightarrow> nat" where
  "small \<equiv> \<lambda>it. 1024"

abbreviation large :: "item \<Rightarrow> nat" where
  "large \<equiv> \<lambda>it. 262144"

abbreviation stackA :: DDBStackOptions where
  "stackA \<equiv> \<lparr>ddb = DynamoDBDocument ''us-west-2'', tablename = ''events'',
     namespace = ''orders|42''\<rparr>"

abbreviation event :: "int \<Rightarrow> ESEvent" where
  "event i \<equiv> \<lparr>id_ev = i, payload_ev = [''type'' \<mapsto> S ''created'']\<rparr>"

text \<open>
  Five appends to one stream: ids 0 and 1 are stored, id 5 is refused, a racing
  \<open>AppendNext\<close> stores id 2, and a second id 2 is refused.
\<close>

abbreviation history :: "step list" where
  "history \<equiv> [AppendAt stackA (event 0), AppendNext stackA (event 7) 0, AppendAt stackA (event 5),
     AppendNext stackA (event 0) 1, AppendAt stackA (event 2)]"

abbreviation six :: "step list" where
  "six \<equiv> [AppendAt stackA (event 0), AppendAt stackA (event 1), AppendAt stackA (event 2),
     AppendAt stackA (event 3), AppendAt stackA (event 4), AppendAt stackA (event 5)]"

text \<open>
  A cache made after a stack exists (the shared client is there) and a cache made before
  any stack was made, with no client of its own: \<open>options.ddb\<close> stays undefined.
\<close>

abbreviation cacheA :: DDBViewCacheOptions where
  "cacheA \<equiv> ddbViewCache (Some (DynamoDBDocument ''us-west-2''))
     \<lparr>ddb = None, tablename = ''views'', namespace = ''GET_v1''\<rparr>"

abbreviation cacheNone :: DDBViewCacheOptions where
  "cacheNone \<equiv> ddbViewCache None \<lparr>ddb = None, tablename = ''views'', namespace = ''GET_v1''\<rparr>"

abbreviation view :: "int \<Rightarrow> CompiledView" where
  "view e \<equiv> \<lparr>eventId = e, payload_view = [''total'' \<mapsto> N (e * 100)]\<rparr>"

abbreviation renamed :: CompiledView where
  "renamed \<equiv> \<lparr>eventId = 3, payload_view = [''viewName'' \<mapsto> S ''other'']\<rparr>"

section \<open>Facts about the store operations\<close>

lemma find_filter_implied:
  "(\<And>x. P x \<Longrightarrow> Q x) \<Longrightarrow> find P (filter Q xs) = find P xs"
  by (induction xs) auto

lemma ddb_get_write:
  "ddb_get key (ddb_write key tbl it) k =
     (if key it = Some k then Some it else ddb_get key tbl k)"
proof (cases "key it = Some k")
  case True
  then show ?thesis by (simp add: ddb_get_def ddb_write_def)
next
  case False
  have "find (\<lambda>r. key r = Some k) (filter (\<lambda>r. key r \<noteq> key it) tbl)
          = find (\<lambda>r. key r = Some k) tbl"
    using False by (intro find_filter_implied) auto
  with False show ?thesis by (simp add: ddb_get_def ddb_write_def)
qed

lemma ddb_get_key: "ddb_get key tbl k = Some r \<Longrightarrow> key r = Some k"
  by (auto simp: ddb_get_def find_Some_iff)

lemma ddb_get_None_iff: "ddb_get key tbl k = None \<longleftrightarrow> (\<forall>r \<in> set tbl. key r \<noteq> Some k)"
  by (auto simp: ddb_get_def find_None_iff)

lemma ddb_write_fresh:
  "key it = Some k \<Longrightarrow> ddb_get key tbl k = None \<Longrightarrow> ddb_write key tbl it = it # tbl"
  by (simp add: ddb_write_def ddb_get_None_iff filter_id_conv)

lemma events_key_attrs:
  "events_key r = Some k \<Longrightarrow> r ''namespace'' = Some (S (fst k)) \<and> r ''id'' = Some (N (snd k))"
  by (auto simp: events_key_def split: option.splits attr.splits)

lemma events_key_event_item:
  "events_key (event_item options ev) = Some (namespace options, id_ev ev)"
  by (simp add: events_key_def event_item_def object_ev_def)

lemma holds_not_exists_events:
  "holds (attribute_not_exists ''namespace'') (ddb_get events_key tbl k)
     \<longleftrightarrow> ddb_get events_key tbl k = None"
proof (cases "ddb_get events_key tbl k")
  case None
  then show ?thesis by simp
next
  case (Some r)
  then have "r ''namespace'' \<noteq> None"
    using ddb_get_key [OF Some] events_key_attrs by fastforce
  with Some show ?thesis by simp
qed

lemma holds_exists_events:
  "holds (attribute_exists ''namespace'') (ddb_get events_key tbl k)
     \<longleftrightarrow> ddb_get events_key tbl k \<noteq> None"
proof (cases "ddb_get events_key tbl k")
  case None
  then show ?thesis by simp
next
  case (Some r)
  then have "r ''namespace'' \<noteq> None"
    using ddb_get_key [OF Some] events_key_attrs by fastforce
  with Some show ?thesis by simp
qed

text \<open>
  What the transaction of \<open>commitEvent\<close> decides, read off the table: the reason list has
  the Put first and, for a nonzero id, the ConditionCheck second.
\<close>

lemma commitEvent_cases:
  assumes "0 \<le> id_ev ev"
  shows "commitEvent options tbl ev =
     (if ddb_get events_key tbl (namespace options, id_ev ev) = None
         \<and> (id_ev ev = 0 \<or> ddb_get events_key tbl (namespace options, id_ev ev - 1) \<noteq> None)
      then (Inr (), ddb_write events_key tbl (event_item options ev))
      else (Inl (TransactionCanceledException
             ((if ddb_get events_key tbl (namespace options, id_ev ev) = None
               then NoReason else ConditionalCheckFailed)
              # (if id_ev ev = 0 then []
                 else [if ddb_get events_key tbl (namespace options, id_ev ev - 1) = None
                       then ConditionalCheckFailed else NoReason]))), tbl))"
proof -
  have key2: "events_key [''namespace'' \<mapsto> S (namespace options), ''id'' \<mapsto> N (id_ev ev - 1)]
                = Some (namespace options, id_ev ev - 1)"
    by (simp add: events_key_def)
  show ?thesis
    using assms
    by (simp add: commitEvent_def ddb_transactWrite_def transactItems_def reason_of_def key2
        events_key_event_item holds_not_exists_events holds_exists_events Let_def)
qed


subsection \<open>The ids of a stream\<close>

lemma stored_iff_get:
  "i \<in> set (stored_ids ns tbl) \<longleftrightarrow> ddb_get events_key tbl (ns, i) \<noteq> None"
proof -
  have "i \<in> set (stored_ids ns tbl) \<longleftrightarrow> (\<exists>r \<in> set tbl. events_key r = Some (ns, i))"
    by (induction tbl)
      (auto simp: stored_ids_def in_partition_def range_of_def split: option.splits)
  then show ?thesis by (auto simp: ddb_get_None_iff)
qed

lemma stored_ids_Cons:
  "stored_ids ns (it # tbl) =
     (if in_partition ns (\<lambda>i. True) it then range_of it # stored_ids ns tbl
      else stored_ids ns tbl)"
  by (simp add: stored_ids_def)

lemma event_item_partition:
  "in_partition ns (\<lambda>i. True) (event_item options ev) \<longleftrightarrow> ns = namespace options"
  by (auto simp: in_partition_def events_key_event_item)

lemma range_of_event_item: "range_of (event_item options ev) = id_ev ev"
  by (simp add: range_of_def events_key_event_item)

lemma gap_free_commitEvent:
  assumes "gap_free ns tbl"
  shows "gap_free ns (snd (commitEvent options tbl ev))"
proof (cases "0 \<le> id_ev ev")
  case False
  then show ?thesis using assms by (simp add: commitEvent_def)
next
  case True
  let ?ids = "stored_ids ns tbl"
  let ?n = "int (length ?ids)"
  show ?thesis
  proof (cases "ddb_get events_key tbl (namespace options, id_ev ev) = None
         \<and> (id_ev ev = 0 \<or> ddb_get events_key tbl (namespace options, id_ev ev - 1) \<noteq> None)")
    case False
    then have "snd (commitEvent options tbl ev) = tbl"
      unfolding commitEvent_cases [OF True, of options tbl] by (simp only: if_False snd_conv)
    then show ?thesis using assms by simp
  next
    case ok: True
    then have tbl': "snd (commitEvent options tbl ev) = event_item options ev # tbl"
      using commitEvent_cases [OF True, of options tbl]
      by (simp add: ddb_write_fresh [where key = events_key, OF events_key_event_item])
    show ?thesis
    proof (cases "ns = namespace options")
      case False
      then show ?thesis
        using assms by (simp add: tbl' gap_free_def stored_ids_Cons event_item_partition)
    next
      case same: True
      have fresh: "id_ev ev \<notin> set ?ids"
        using ok same by (simp add: stored_iff_get)
      have pred: "id_ev ev = 0 \<or> id_ev ev - 1 \<in> set ?ids"
        using ok same by (simp add: stored_iff_get)
      have set: "set ?ids = {0..<?n}" and dist: "distinct ?ids"
        using assms by (simp_all add: gap_free_def)
      have "id_ev ev = ?n"
        using fresh pred True unfolding set by auto
      then have "set (id_ev ev # ?ids) = {0..<1 + ?n}"
        unfolding list.set set by auto
      then show ?thesis
        using fresh dist same
        by (simp add: tbl' gap_free_def stored_ids_Cons event_item_partition range_of_event_item)
    qed
  qed
qed

lemma gap_free_exec:
  "gap_free ns (fst st) \<Longrightarrow> gap_free ns (fst (exec bytes st step))"
  by (cases st; cases step) (simp_all add: commitAnonymousEvent_def gap_free_commitEvent)

lemma gap_free_foldl:
  "gap_free ns (fst st) \<Longrightarrow> gap_free ns (fst (foldl (exec bytes) st steps))"
  by (induction steps arbitrary: st) (simp_all add: gap_free_exec)

lemma gap_free_run: "gap_free ns (run bytes steps)"
  unfolding run_def by (rule gap_free_foldl) (simp add: gap_free_def stored_ids_def)

subsection \<open>One response page\<close>

lemma one_page_take:
  "one_page bytes used xs = take (length (one_page bytes used xs)) xs"
  by (induction xs arbitrary: used) simp_all

lemma one_page_single: "one_page bytes 0 (take 1 xs) = take 1 xs"
  by (cases xs) (simp_all add: page_limit_def)

lemma one_page_Nil_iff: "one_page bytes 0 xs = [] \<longleftrightarrow> xs = []"
  by (cases xs) (simp_all add: page_limit_def)

lemma one_page_all:
  "used + sum_list (map bytes xs) < page_limit \<Longrightarrow> one_page bytes used xs = xs"
  by (induction xs arbitrary: used) (simp_all add: add.assoc)

lemma set_one_page: "r \<in> set (one_page bytes used xs) \<Longrightarrow> r \<in> set xs"
  using one_page_take [of bytes used xs] by (metis in_set_takeD)

lemma sum_list_insort_key:
  "sum_list (map g (insort_key f a xs)) = (g a :: nat) + sum_list (map g xs)"
  by (induction xs) simp_all

lemma sum_list_sort_key:
  "sum_list (map g (sort_key f xs)) = (sum_list (map g xs) :: nat)"
  by (induction xs) (simp_all add: sum_list_insort_key)


lemma stored_ids_filter:
  "map range_of (filter (in_partition ns p) tbl) = filter p (stored_ids ns tbl)"
  by (induction tbl)
    (auto simp: stored_ids_def in_partition_def range_of_def split: option.splits)

lemma map_insort_key: "map f (insort_key f a xs) = insort (f a) (map f xs)"
  by (induction xs) simp_all

lemma map_sort_key: "map f (sort_key f xs) = sort (map f xs)"
  by (induction xs) (simp_all add: map_insort_key)

lemma sorted_distinct_upto:
  assumes "sorted xs" "distinct xs" "set xs = {a..b}"
  shows "xs = [a..b]"
  using assms by (intro sorted_distinct_set_unique) simp_all

lemma last_sorted_Max:
  assumes "sorted xs" "xs \<noteq> []"
  shows "last xs = Max (set xs)"
proof -
  have "\<forall>y \<in> set xs. y \<le> last xs"
    using assms by (induction xs) (auto)
  then show ?thesis using assms by (intro Max_eqI [symmetric]) auto
qed

lemma full_slice_ids:
  assumes "gap_free ns tbl"
  shows "map range_of (sort_key range_of (filter (in_partition ns (\<lambda>i. s \<le> i)) tbl))
           = [max s 0..int (length (stored_ids ns tbl)) - 1]"
proof -
  let ?ids = "stored_ids ns tbl"
  have "map range_of (sort_key range_of (filter (in_partition ns (\<lambda>i. s \<le> i)) tbl))
          = sort (filter (\<lambda>i. s \<le> i) ?ids)"
    by (simp add: map_sort_key stored_ids_filter)
  moreover have "distinct (sort (filter (\<lambda>i. s \<le> i) ?ids))"
    using assms by (simp add: gap_free_def)
  moreover have "set (sort (filter (\<lambda>i. s \<le> i) ?ids)) = {max s 0..int (length ?ids) - 1}"
    using assms by (auto simp: gap_free_def)
  ultimately show ?thesis
    by (intro sorted_distinct_upto) simp_all
qed

text \<open>
  The page \<open>slice\<close> gets: a leading part of the ids from the start id on, empty only when
  there is no such id, and all of them when the sizes of these events add up to less
  than the page limit.
\<close>

lemma slice_ids:
  assumes "gap_free ns tbl"
  shows "map range_of (ddb_query bytes tbl ns (\<lambda>i. s \<le> i) True None)
           = take (length (ddb_query bytes tbl ns (\<lambda>i. s \<le> i) True None))
               [max s 0..int (length (stored_ids ns tbl)) - 1]"
    and "ddb_query bytes tbl ns (\<lambda>i. s \<le> i) True None = []
           \<longleftrightarrow> int (length (stored_ids ns tbl)) \<le> max s 0"
    and "sum_list (map bytes (filter (in_partition ns (\<lambda>i. s \<le> i)) tbl)) < page_limit
           \<Longrightarrow> map range_of (ddb_query bytes tbl ns (\<lambda>i. s \<le> i) True None)
                 = [max s 0..int (length (stored_ids ns tbl)) - 1]"
proof -
  let ?full = "sort_key range_of (filter (in_partition ns (\<lambda>i. s \<le> i)) tbl)"
  let ?all = "[max s 0..int (length (stored_ids ns tbl)) - 1]"
  have q: "ddb_query bytes tbl ns (\<lambda>i. s \<le> i) True None = one_page bytes 0 ?full"
    by (simp add: ddb_query_def)
  have full: "map range_of ?full = ?all"
    by (rule full_slice_ids [OF assms])
  have "map range_of (one_page bytes 0 ?full)
          = map range_of (take (length (one_page bytes 0 ?full)) ?full)"
    using one_page_take [of bytes 0 ?full] by simp
  also have "\<dots> = take (length (one_page bytes 0 ?full)) (map range_of ?full)"
    by (rule take_map [symmetric])
  also have "\<dots> = take (length (one_page bytes 0 ?full)) ?all"
    by (simp only: full)
  finally show "map range_of (ddb_query bytes tbl ns (\<lambda>i. s \<le> i) True None)
           = take (length (ddb_query bytes tbl ns (\<lambda>i. s \<le> i) True None)) ?all"
    by (simp add: q)
  have "?full = [] \<longleftrightarrow> ?all = []"
    using full by (metis map_is_Nil_conv)
  moreover have "?all = [] \<longleftrightarrow> int (length (stored_ids ns tbl)) \<le> max s 0"
    by auto
  ultimately show "ddb_query bytes tbl ns (\<lambda>i. s \<le> i) True None = []
           \<longleftrightarrow> int (length (stored_ids ns tbl)) \<le> max s 0"
    by (simp only: q one_page_Nil_iff)
  assume "sum_list (map bytes (filter (in_partition ns (\<lambda>i. s \<le> i)) tbl)) < page_limit"
  then have "one_page bytes 0 ?full = ?full"
    by (intro one_page_all) (simp add: sum_list_sort_key)
  then show "map range_of (ddb_query bytes tbl ns (\<lambda>i. s \<le> i) True None) = ?all"
    by (simp add: q full)
qed

lemma query_partition:
  "r \<in> set (ddb_query bytes tbl ns p fwd lim) \<Longrightarrow> events_key r = Some (ns, range_of r)"
proof -
  assume "r \<in> set (ddb_query bytes tbl ns p fwd lim)"
  then have "r \<in> set (filter (in_partition ns p) tbl)"
    by (auto simp: ddb_query_def Let_def split: option.splits if_splits
        dest!: set_one_page in_set_takeD)
  then show ?thesis
    by (auto simp: in_partition_def range_of_def split: option.splits)
qed

lemma query_keys:
  "map events_key (ddb_query bytes tbl ns p fwd lim)
     = map (\<lambda>i. Some (ns, i)) (map range_of (ddb_query bytes tbl ns p fwd lim))"
  by (simp add: query_partition)

lemma getEvent_gap_free:
  assumes "gap_free (namespace options) tbl"
  shows "map_option events_key (getEvent options tbl i) =
     (if 0 \<le> i \<and> i < int (length (stored_ids (namespace options) tbl))
      then Some (Some (namespace options, i)) else None)"
proof (cases "getEvent options tbl i")
  case None
  then have "i \<notin> set (stored_ids (namespace options) tbl)"
    by (simp add: stored_iff_get getEvent_def)
  then show ?thesis using assms None by (auto simp: gap_free_def)
next
  case (Some r)
  then have "i \<in> set (stored_ids (namespace options) tbl)"
    by (simp add: stored_iff_get getEvent_def)
  moreover have "events_key r = Some (namespace options, i)"
    using Some by (auto simp: getEvent_def dest: ddb_get_key)
  ultimately show ?thesis using assms Some by (auto simp: gap_free_def)
qed


subsection \<open>The tail query\<close>

lemma last_sort_key_Max:
  assumes "xs \<noteq> []"
  shows "f (last (sort_key f xs)) = Max (f ` set xs)"
proof -
  have ne: "sort_key f xs \<noteq> []"
    using assms set_sort [of f xs] by (metis set_empty)
  have "last (map f (sort_key f xs)) = Max (set (map f (sort_key f xs)))"
    using ne by (intro last_sorted_Max) (simp_all add: sorted_sort_key)
  then show ?thesis
    using ne by (simp add: last_map)
qed

lemma nextEventId_Max:
  "nextEventId bytes options seen =
     (if stored_ids (namespace options) seen = [] then 0
      else Max (set (stored_ids (namespace options) seen)) + 1)"
proof -
  let ?rows = "filter (in_partition (namespace options) (\<lambda>i. True)) seen"
  show ?thesis
  proof (cases "?rows = []")
    case True
    then show ?thesis
      by (simp add: nextEventId_def ddb_query_def stored_ids_def)
  next
    case False
    let ?s = "sort_key range_of ?rows"
    have ne: "?s \<noteq> []"
      using False set_sort [of range_of ?rows] by (metis set_empty)
    then have hd: "take 1 (rev ?s) = [last ?s]"
      by (cases "rev ?s") (simp_all add: last_rev hd_rev [symmetric])
    have "last ?s \<in> set ?rows"
      using ne last_in_set [OF ne] by simp
    then have key: "events_key (last ?s) = Some (namespace options, range_of (last ?s))"
      by (auto simp: in_partition_def range_of_def split: option.splits)
    have idattr: "last ?s ''id'' = Some (N (range_of (last ?s)))"
      using events_key_attrs [OF key] by simp
    have "range_of (last ?s) = Max (set (stored_ids (namespace options) seen))"
      using last_sort_key_Max [OF False, of range_of] by (simp add: stored_ids_def)
    then show ?thesis
      using False hd idattr
      by (simp add: nextEventId_def ddb_query_def stored_ids_def page_limit_def)
  qed
qed

lemma commitEvent_failure_unchanged:
  "fst (commitEvent options tbl ev) = Inl ex \<Longrightarrow> snd (commitEvent options tbl ev) = tbl"
proof (cases "0 \<le> id_ev ev")
  case True
  assume "fst (commitEvent options tbl ev) = Inl ex"
  then show ?thesis
    unfolding commitEvent_cases [OF True, of options tbl] by (simp split: if_splits)
next
  case False
  then show ?thesis by (simp add: commitEvent_def)
qed

lemma tail_query:
  "map range_of (ddb_query bytes seen ns (\<lambda>i. True) False (Some 1))
     = (if stored_ids ns seen = [] then [] else [Max (set (stored_ids ns seen))])"
proof -
  let ?rows = "filter (in_partition ns (\<lambda>i. True)) seen"
  show ?thesis
  proof (cases "?rows = []")
    case True
    then show ?thesis by (simp add: ddb_query_def stored_ids_def)
  next
    case False
    let ?s = "sort_key range_of ?rows"
    have ne: "?s \<noteq> []"
      using False set_sort [of range_of ?rows] by (metis set_empty)
    then have hd: "take 1 (rev ?s) = [last ?s]"
      by (cases "rev ?s") (simp_all add: last_rev hd_rev [symmetric])
    have "range_of (last ?s) = Max (set (stored_ids ns seen))"
      using last_sort_key_Max [OF False, of range_of] by (simp add: stored_ids_def)
    then show ?thesis
      using False hd by (simp add: ddb_query_def stored_ids_def page_limit_def)
  qed
qed

subsection \<open>The tests on the message text\<close>

text \<open>
  The two tests of the catch block of \<open>commitEvent\<close> tell the two reason lists of a nonzero
  id apart; on the one-entry list of id 0 both fire. The test of \<open>updateCache\<close> does not
  fire on the message of a failed conditional put.
\<close>

lemma catch_block_tests:
  "logs_already_exists (TransactionCanceledException [ConditionalCheckFailed, NoReason])"
  "\<not> logs_too_far_ahead (TransactionCanceledException [ConditionalCheckFailed, NoReason])"
  "\<not> logs_already_exists (TransactionCanceledException [NoReason, ConditionalCheckFailed])"
  "logs_too_far_ahead (TransactionCanceledException [NoReason, ConditionalCheckFailed])"
  "logs_already_exists (TransactionCanceledException [ConditionalCheckFailed])"
  "logs_too_far_ahead (TransactionCanceledException [ConditionalCheckFailed])"
  by (simp_all add: logs_already_exists_def logs_too_far_ahead_def indexOf_def truthy_def)

lemma conditional_message_test:
  "indexOf (message ConditionalCheckFailedException) ''ConditionalCheckFailed'' = - 1"
  by (simp add: indexOf_def)

lemma validation_message_test:
  "indexOf (message ValidationException) ''ConditionalCheckFailed'' = - 1"
  by (simp add: indexOf_def)

subsection \<open>The separator in stack names\<close>

lemma split_at_first:
  "x \<notin> set xs \<Longrightarrow> x \<notin> set ys \<Longrightarrow> xs @ x # us = ys @ x # vs \<Longrightarrow> xs = ys \<and> us = vs"
proof (induction xs arbitrary: ys)
  case Nil
  then show ?case by (cases ys) auto
next
  case (Cons a xs)
  then show ?case by (cases ys) auto
qed

lemma name_inject_left:
  assumes "CHR ''|'' \<notin> set s1" "CHR ''|'' \<notin> set s2" "name s1 n1 = name s2 n2"
  shows "s1 = s2 \<and> n1 = n2"
  using assms split_at_first [of "CHR ''|''" s1 s2 n1 n2] by (simp add: name_def)

lemma name_inject_right:
  assumes "CHR ''|'' \<notin> set n1" "CHR ''|'' \<notin> set n2" "name s1 n1 = name s2 n2"
  shows "s1 = s2 \<and> n1 = n2"
proof -
  have "rev (name s1 n1) = rev (name s2 n2)"
    using assms(3) by simp
  then have "rev n1 @ CHR ''|'' # rev s1 = rev n2 @ CHR ''|'' # rev s2"
    by (simp add: name_def)
  then have "rev n1 = rev n2 \<and> rev s1 = rev s2"
    using assms(1,2) split_at_first [of "CHR ''|''" "rev n1" "rev n2" "rev s1" "rev s2"] by simp
  then show ?thesis by simp
qed

subsection \<open>The conditional put of the view cache\<close>

lemma views_key_attrs:
  "views_key r = Some k \<Longrightarrow> r ''namespace'' = Some (S (fst k)) \<and> r ''viewName'' = Some (S (snd k))"
  by (auto simp: views_key_def split: option.splits attr.splits)

lemma holds_not_exists_views:
  "holds (attribute_not_exists ''namespace'') (ddb_get views_key tbl k)
     \<longleftrightarrow> ddb_get views_key tbl k = None"
proof (cases "ddb_get views_key tbl k")
  case None
  then show ?thesis by simp
next
  case (Some r)
  then have "r ''namespace'' \<noteq> None"
    using ddb_get_key [OF Some] views_key_attrs by fastforce
  with Some show ?thesis by simp
qed

lemma cache_item_attrs:
  "cache_item options ident cv ''namespace''
     = (case payload_view cv ''namespace'' of Some x \<Rightarrow> Some x | None \<Rightarrow> Some (S (namespace options)))"
  "cache_item options ident cv ''viewName''
     = (case payload_view cv ''viewName'' of Some y \<Rightarrow> Some y | None \<Rightarrow> Some (S ident))"
  "cache_item options ident cv ''eventId'' = Some (N (eventId cv))"
  by (simp_all add: cache_item_def object_view_def map_add_def split: option.splits)

lemma cache_item_key:
  "payload_view cv ''namespace'' = None \<Longrightarrow> payload_view cv ''viewName'' = None \<Longrightarrow>
     views_key (cache_item options ident cv) = Some (namespace options, ident)"
  by (simp add: views_key_def cache_item_attrs)

text \<open>
  What \<open>updateCache\<close> does with a client: with an item that has a key it is the
  conditional put, without one the request is rejected, and neither failure carries a
  message the test in the catch block accepts.
\<close>

lemma updateCache_with_client:
  assumes "ddb options = Some d" and "views_key (cache_item options ident cv) = Some k"
  shows "updateCache options tbl ident cv =
     (if ddb_get views_key tbl k = None
         \<or> holds (attr_less ''eventId'' (N (eventId cv))) (ddb_get views_key tbl k)
      then (Inr (), ddb_write views_key tbl (cache_item options ident cv))
      else (Inl ConditionalCheckFailedException, tbl))"
  using assms conditional_message_test
  by (simp add: updateCache_def ddb_put_def holds_not_exists_views truthy_def)

lemma updateCache_no_key:
  assumes "ddb options = Some d" and "views_key (cache_item options ident cv) = None"
  shows "updateCache options tbl ident cv = (Inl ValidationException, tbl)"
  using assms validation_message_test
  by (simp add: updateCache_def ddb_put_def truthy_def)

lemma updateCache_no_client:
  "ddb options = None \<Longrightarrow> updateCache options tbl ident cv = (Inr (), tbl)"
  by (simp add: updateCache_def)

lemma holds_less_eventId:
  "holds (attr_less ''eventId'' (N e)) old
     \<longleftrightarrow> (\<exists>it e0. old = Some it \<and> it ''eventId'' = Some (N e0) \<and> e0 < e)"
proof (cases old)
  case None
  then show ?thesis by simp
next
  case (Some it)
  show ?thesis
  proof (cases "it ''eventId''")
    case None
    with Some show ?thesis by simp
  next
    case (Some x)
    with \<open>old = Some it\<close> show ?thesis by (cases x) simp_all
  qed
qed

lemma updateCache_snd:
  "snd (updateCache options tbl ident cv) = tbl
   \<or> (\<exists>k. views_key (cache_item options ident cv) = Some k
        \<and> (ddb_get views_key tbl k = None
            \<or> holds (attr_less ''eventId'' (N (eventId cv))) (ddb_get views_key tbl k))
        \<and> snd (updateCache options tbl ident cv)
            = ddb_write views_key tbl (cache_item options ident cv))"
proof (cases "ddb options")
  case None
  then show ?thesis by (simp add: updateCache_no_client)
next
  case (Some d)
  show ?thesis
  proof (cases "views_key (cache_item options ident cv)")
    case None
    then show ?thesis using Some by (simp add: updateCache_no_key)
  next
    case k: (Some k)
    show ?thesis
      unfolding updateCache_with_client [OF Some k] using k by simp
  qed
qed

lemma stored_eventId_updateCache:
  assumes "stored_eventId tbl k = Some e"
  shows "\<exists>e'. stored_eventId (snd (updateCache options tbl ident cv)) k = Some e' \<and> e \<le> e'"
proof -
  let ?item = "cache_item options ident cv"
  from updateCache_snd [of options tbl ident cv]
  consider (same) "snd (updateCache options tbl ident cv) = tbl"
    | (written) k' where "views_key ?item = Some k'"
        "ddb_get views_key tbl k' = None
           \<or> holds (attr_less ''eventId'' (N (eventId cv))) (ddb_get views_key tbl k')"
        "snd (updateCache options tbl ident cv) = ddb_write views_key tbl ?item"
    by blast
  then show ?thesis
  proof cases
    case same
    then show ?thesis using assms by simp
  next
    case written
    note key = written(1) and c = written(2) and t = written(3)
    show ?thesis
    proof (cases "k' = k")
      case False
      then show ?thesis
        using assms key by (simp add: t stored_eventId_def ddb_get_write)
    next
      case True
      from assms obtain it where old: "ddb_get views_key tbl k = Some it"
          and ev: "it ''eventId'' = Some (N e)"
        by (auto simp: stored_eventId_def split: option.splits attr.splits)
      from c True old ev have "e < eventId cv"
        by (auto simp: holds_less_eventId)
      then show ?thesis
        using key True by (simp add: t stored_eventId_def ddb_get_write cache_item_attrs)
    qed
  qed
qed

lemma stored_eventId_updates:
  "stored_eventId tbl k = Some e \<Longrightarrow> \<exists>e'. stored_eventId (updates tbl calls) k = Some e' \<and> e \<le> e'"
proof (induction calls arbitrary: tbl e)
  case Nil
  then show ?case by simp
next
  case (Cons c calls)
  obtain options ident cv where c: "c = (options, ident, cv)"
    by (cases c) auto
  from stored_eventId_updateCache [OF Cons.prems, of options ident cv]
  obtain e1 where e1: "stored_eventId (snd (updateCache options tbl ident cv)) k = Some e1"
      and le: "e \<le> e1" by blast
  from Cons.IH [OF e1] obtain e' where
    "stored_eventId (updates (snd (updateCache options tbl ident cv)) calls) k = Some e'"
    "e1 \<le> e'" by blast
  with le c show ?case by auto
qed

text \<open>
  A write that is not newer than the stored view: the put fails its condition, the message
  of that failure does not contain the text \<open>updateCache\<close> looks for, and the exception
  is thrown again.
\<close>

lemma updateCache_stale_raises:
  assumes "ddb options = Some d"
      and "payload_view cv ''namespace'' = None" and "payload_view cv ''viewName'' = None"
      and "ddb_get views_key tbl (namespace options, ident) = Some it"
      and "it ''eventId'' = Some (N e)" and "eventId cv \<le> e"
  shows "updateCache options tbl ident cv = (Inl ConditionalCheckFailedException, tbl)"
  using assms(4-6)
  unfolding updateCache_with_client [OF assms(1) cache_item_key [OF assms(2,3)]]
  by (auto simp: holds_less_eventId)

lemmas eval_defs =
  run_def commitAnonymousEvent_def commitEvent_def nextEventId_def ddb_query_def
  ddb_transactWrite_def transactItems_def reason_of_def event_item_def object_ev_def
  events_key_def ddb_get_def ddb_write_def stored_ids_def in_partition_def range_of_def
  getEvent_def slice_def page_limit_def

lemmas view_defs =
  updateCache_def ddbViewCache_def ddb_put_def ddb_get_def ddb_write_def views_key_def
  cache_item_def object_view_def getFromCache_def map_add_def indexOf_def truthy_def

lemma history_ids: "stored_ids ''orders|42'' (run small history) = [2, 1, 0]"
  by (simp add: eval_defs)

section \<open>Theorems\<close>

text \<open>
  C9. An event with a negative id: \<open>commitEvent\<close> returns normally, whatever the table
  holds, and the table is the one it was given.
\<close>

theorem commitEvent_negative_id:
  "id_ev ev < 0 \<Longrightarrow> commitEvent options tbl ev = (Inr (), tbl)"
  by (simp add: commitEvent_def)

theorem commitEvent_negative_id_witness:
  "id_ev (event (- 1)) < 0
   \<and> commitEvent stackA [event_item stackA (event 0)] (event (- 1))
       = (Inr (), [event_item stackA (event 0)])"
  using commitEvent_negative_id [of "event (- 1)" stackA "[event_item stackA (event 0)]"]
  by simp

text \<open>
  C2. For an event with id \<open>\<ge> 0\<close>, \<open>commitEvent\<close> tests in one transaction that nothing is
  stored at (namespace, id) and, unless the id is 0, that something is stored at
  (namespace, id - 1). When both hold the call succeeds and the event is stored under its
  key: the stored item has every property of the event, its id, and the namespace of the
  stack; every other key keeps what it had. Otherwise the call fails with the cancelled
  transaction and the table is the one it was given. For id 0 the second test is not made.
\<close>

theorem commitEvent_atomic:
  assumes "0 \<le> id_ev ev"
  shows "let k = (namespace options, id_ev ev);
             free = (ddb_get events_key tbl k = None);
             linked = (id_ev ev = 0 \<or> ddb_get events_key tbl (namespace options, id_ev ev - 1) \<noteq> None);
             res = fst (commitEvent options tbl ev);
             tbl' = snd (commitEvent options tbl ev)
         in (free \<and> linked \<longrightarrow>
               res = Inr ()
               \<and> ddb_get events_key tbl' k
                   = Some ((payload_ev ev)(''id'' \<mapsto> N (id_ev ev),
                             ''namespace'' \<mapsto> S (namespace options)))
               \<and> (\<forall>k'. k' \<noteq> k \<longrightarrow> ddb_get events_key tbl' k' = ddb_get events_key tbl k'))
          \<and> (\<not> (free \<and> linked) \<longrightarrow>
               (\<exists>rs. res = Inl (TransactionCanceledException rs)) \<and> tbl' = tbl)"
proof -
  have item: "event_item options ev
      = (payload_ev ev)(''id'' \<mapsto> N (id_ev ev), ''namespace'' \<mapsto> S (namespace options))"
    by (simp add: event_item_def object_ev_def)
  show ?thesis
    using commitEvent_cases [OF assms, of options tbl]
    by (auto simp: Let_def ddb_get_write events_key_event_item item [symmetric])
qed

theorem commitEvent_atomic_witness:
  "0 \<le> id_ev (event 0)
   \<and> fst (commitEvent stackA [] (event 0)) = Inr ()
   \<and> map_option (\<lambda>it. (it ''type'', it ''id'', it ''namespace'', it ''other''))
        (getEvent stackA (snd (commitEvent stackA [] (event 0))) 0)
       = Some (Some (S ''created''), Some (N 0), Some (S ''orders|42''), None)
   \<and> (\<exists>rs. commitEvent stackA [event_item stackA (event 0)] (event 2)
              = (Inl (TransactionCanceledException rs), [event_item stackA (event 0)]))"
proof -
  let ?t = "[event_item stackA (event 0)]"
  have free0: "ddb_get events_key [] (namespace stackA, id_ev (event 0)) = None"
    by (simp add: ddb_get_def)
  have miss: "ddb_get events_key ?t (namespace stackA, id_ev (event 2) - 1) = None"
    by (simp add: ddb_get_def events_key_def event_item_def object_ev_def)
  have ok: "fst (commitEvent stackA [] (event 0)) = Inr ()
        \<and> ddb_get events_key (snd (commitEvent stackA [] (event 0))) (namespace stackA, 0)
            = Some ((payload_ev (event 0))(''id'' \<mapsto> N 0, ''namespace'' \<mapsto> S (namespace stackA)))"
    using commitEvent_atomic [of "event 0" stackA "[]"] free0
    by (simp add: Let_def)
  have bad: "(\<exists>rs. fst (commitEvent stackA ?t (event 2)) = Inl (TransactionCanceledException rs))
        \<and> snd (commitEvent stackA ?t (event 2)) = ?t"
    using commitEvent_atomic [of "event 2" stackA ?t] miss
    by (simp add: Let_def)
  show ?thesis
    using ok bad by (auto simp: getEvent_def prod_eq_iff)
qed

text \<open>
  C1, counterexample. Six events of 256 KB each are stored under ids 0 to 5; one response
  page ends once 1 MB has been processed, and \<open>slice(0)\<close> returns the events with ids
  0 to 3 only.
\<close>

theorem slice_one_page_counterexample:
  "stored_ids ''orders|42'' (run large six) = [5, 4, 3, 2, 1, 0]
   \<and> map_sum id (map range_of) (slice large stackA (run large six) (Some 0) None)
       = Inr [0, 1, 2, 3]"
  by (simp add: eval_defs)

text \<open>
  C1, amended. After any sequence of \<open>commitEvent\<close> and \<open>commitAnonymousEvent\<close> calls on the
  events table, by any stacks, in any order and with any staleness of the tail reads, the
  ids stored for a namespace have no duplicates and are exactly \<open>0, \<dots>, n - 1\<close> (\<open>n\<close> the
  number of stored events, so the set is empty for a stream nobody has appended to);
  \<open>getEvent\<close> finds an event exactly at these ids. \<open>slice\<close> returns events of the
  namespace in strictly increasing order of id, beginning at the start id and skipping
  none, as far as one response page of the store carries them: at least the first one
  when there is one, and all of them when their sizes add up to less than 1 MB.
\<close>

theorem stream_gap_free:
  "let tbl = run bytes steps;
       ns = namespace options;
       ids = stored_ids ns tbl;
       n = int (length ids)
   in distinct ids \<and> set ids = {0..<n}
      \<and> (\<forall>i. map_option events_key (getEvent options tbl i)
                = (if 0 \<le> i \<and> i < n then Some (Some (ns, i)) else None))
      \<and> (\<forall>s e. \<exists>rows. slice bytes options tbl (Some s) e = Inr rows
                \<and> map events_key rows
                    = map (\<lambda>i. Some (ns, i)) (take (length rows) [max s 0..n - 1])
                \<and> (rows = [] \<longleftrightarrow> n \<le> max s 0)
                \<and> (sum_list (map bytes (filter (in_partition ns (\<lambda>i. s \<le> i)) tbl)) < page_limit
                     \<longrightarrow> map events_key rows = map (\<lambda>i. Some (ns, i)) [max s 0..n - 1]))"
proof -
  let ?tbl = "run bytes steps"
  let ?ns = "namespace options"
  let ?n = "int (length (stored_ids ?ns ?tbl))"
  have gf: "gap_free ?ns ?tbl"
    by (rule gap_free_run)
  have "\<exists>rows. slice bytes options ?tbl (Some s) e = Inr rows
          \<and> map events_key rows = map (\<lambda>i. Some (?ns, i)) (take (length rows) [max s 0..?n - 1])
          \<and> (rows = [] \<longleftrightarrow> ?n \<le> max s 0)
          \<and> (sum_list (map bytes (filter (in_partition ?ns (\<lambda>i. s \<le> i)) ?tbl)) < page_limit
                \<longrightarrow> map events_key rows = map (\<lambda>i. Some (?ns, i)) [max s 0..?n - 1])" for s e
    using slice_ids [OF gf, of bytes s]
      query_keys [of bytes ?tbl ?ns "\<lambda>i. s \<le> i" True None]
    by (simp add: slice_def)
  then show ?thesis
    using gf getEvent_gap_free [OF gf]
    by (simp add: Let_def gap_free_def)
qed

theorem stream_gap_free_witness:
  "set (stored_ids ''orders|42'' (run small history)) = {0..<3}
   \<and> map_option events_key (getEvent stackA (run small history) 2) = Some (Some (''orders|42'', 2))
   \<and> getEvent stackA (run small history) 3 = None
   \<and> (\<exists>rows. slice small stackA (run small history) (Some 1) None = Inr rows
         \<and> map events_key rows = [Some (''orders|42'', 1), Some (''orders|42'', 2)])"
proof -
  let ?tbl = "run small history"
  have n: "int (length (stored_ids (namespace stackA) ?tbl)) = 3"
    using history_ids by simp
  have up: "[max 1 0..3 - 1] = [1, 2 :: int]"
    by (simp add: upto.simps)
  have fits: "sum_list (map small (filter (in_partition (namespace stackA) (\<lambda>i. 1 \<le> i)) ?tbl))
                < page_limit"
    by (simp add: sum_list_triv page_limit_def) (simp add: eval_defs)
  note T = stream_gap_free [of small history stackA, unfolded Let_def n]
  have a: "set (stored_ids (namespace stackA) ?tbl) = {0..<3}"
    using T by blast
  have b: "map_option events_key (getEvent stackA ?tbl 2) = Some (Some (namespace stackA, 2))"
    using T by simp
  have c: "map_option events_key (getEvent stackA ?tbl 3) = None"
    using T by simp
  have "\<exists>rows. slice small stackA ?tbl (Some 1) None = Inr rows
         \<and> (sum_list (map small (filter (in_partition (namespace stackA) (\<lambda>i. 1 \<le> i)) ?tbl))
               < page_limit
             \<longrightarrow> map events_key rows = map (\<lambda>i. Some (namespace stackA, i)) [max 1 0..3 - 1])"
    using T by blast
  then have d: "\<exists>rows. slice small stackA ?tbl (Some 1) None = Inr rows
         \<and> map events_key rows = map (\<lambda>i. Some (namespace stackA, i)) [max 1 0..3 - 1]"
    using fits by blast
  show ?thesis
    using a b c d unfolding up by simp
qed

text \<open>
  C3. On a table built by appends, a \<open>commitEvent\<close> that fails throws the cancelled
  transaction of the store, unchanged, and exactly one of the two conflicts is the case:
  either an event is already stored at (namespace, id), and then the first reason is
  \<open>ConditionalCheckFailed\<close> and a second one, if any, is \<open>None\<close>; or the id is not 0,
  nothing is stored at (namespace, id - 1), and then the reasons are \<open>None\<close>,
  \<open>ConditionalCheckFailed\<close>. The two exceptions differ, so the caller can tell which
  condition failed.
\<close>

theorem commitEvent_conflict_kinds:
  assumes "fst (commitEvent options (run bytes steps) ev) = Inl ex"
  shows "let tbl = run bytes steps;
             duplicate = (getEvent options tbl (id_ev ev) \<noteq> None);
             missing = (id_ev ev \<noteq> 0 \<and> getEvent options tbl (id_ev ev - 1) = None)
         in (duplicate \<and> \<not> missing
               \<and> ex = TransactionCanceledException
                        (ConditionalCheckFailed # (if id_ev ev = 0 then [] else [NoReason])))
          \<or> (missing \<and> \<not> duplicate
               \<and> ex = TransactionCanceledException [NoReason, ConditionalCheckFailed])"
proof -
  let ?ns = "namespace options"
  let ?ids = "stored_ids ?ns (run bytes steps)"
  have nonneg: "0 \<le> id_ev ev"
    using assms by (cases "0 \<le> id_ev ev") (simp_all add: commitEvent_def)
  have gf: "set ?ids = {0..<int (length ?ids)}"
    using gap_free_run [of ?ns bytes steps] by (simp add: gap_free_def)
  have both: "id_ev ev - 1 \<in> set ?ids" if "id_ev ev \<in> set ?ids" "id_ev ev \<noteq> 0"
    using that unfolding gf by auto
  have excl: "ddb_get events_key (run bytes steps) (?ns, id_ev ev - 1) \<noteq> None"
    if "ddb_get events_key (run bytes steps) (?ns, id_ev ev) \<noteq> None" "id_ev ev \<noteq> 0"
    using both that by (simp add: stored_iff_get)
  show ?thesis
    using assms excl unfolding commitEvent_cases [OF nonneg, of options "run bytes steps"]
    by (auto simp: Let_def getEvent_def split: if_splits)
qed

theorem commitEvent_conflict_kinds_witness:
  "fst (commitEvent stackA (run small history) (event 5))
     = Inl (TransactionCanceledException [NoReason, ConditionalCheckFailed])
   \<and> getEvent stackA (run small history) 4 = None \<and> getEvent stackA (run small history) 5 = None
   \<and> fst (commitEvent stackA (run small history) (event 1))
     = Inl (TransactionCanceledException [ConditionalCheckFailed, NoReason])
   \<and> getEvent stackA (run small history) 1 \<noteq> None \<and> getEvent stackA (run small history) 0 \<noteq> None"
proof -
  have far: "fst (commitEvent stackA (run small history) (event 5))
     = Inl (TransactionCanceledException [NoReason, ConditionalCheckFailed])"
    by (simp add: eval_defs)
  have dup: "fst (commitEvent stackA (run small history) (event 1))
     = Inl (TransactionCanceledException [ConditionalCheckFailed, NoReason])"
    by (simp add: eval_defs)
  show ?thesis
    using commitEvent_conflict_kinds [OF far] commitEvent_conflict_kinds [OF dup] far dup
    by (simp add: Let_def)
qed

text \<open>
  C7. \<open>commitAnonymousEvent\<close> queries the partition in descending order with limit 1,
  which yields the stored event of highest id if there is one; the candidate id is that
  id plus one, or 0 for an empty stream; the call then is one \<open>commitEvent\<close> with that id
  on the table as it is by then, and when that fails the failure is the result and
  nothing has been written: there is no second attempt.
\<close>

theorem commitAnonymousEvent_single_attempt:
  "let ids = stored_ids (namespace options) seen;
       candidateId = (if ids = [] then 0 else Max (set ids) + 1);
       tail = ddb_query bytes seen (namespace options) (\<lambda>i. True) False (Some 1)
   in map range_of tail = (if ids = [] then [] else [Max (set ids)])
      \<and> nextEventId bytes options seen = candidateId
      \<and> commitAnonymousEvent bytes options seen tbl ev
           = commitEvent options tbl (ev\<lparr>id_ev := candidateId\<rparr>)
      \<and> (\<forall>ex. fst (commitAnonymousEvent bytes options seen tbl ev) = Inl ex
            \<longrightarrow> snd (commitAnonymousEvent bytes options seen tbl ev) = tbl)"
  using tail_query [of bytes seen "namespace options"] nextEventId_Max [of bytes options seen]
    commitEvent_failure_unchanged [of options tbl "ev\<lparr>id_ev := nextEventId bytes options seen\<rparr>"]
  by (simp add: Let_def commitAnonymousEvent_def)

theorem commitAnonymousEvent_single_attempt_witness:
  "nextEventId small stackA [event_item stackA (event 0)] = 1
   \<and> commitAnonymousEvent small stackA [event_item stackA (event 0)]
        [event_item stackA (event 1), event_item stackA (event 0)] (event 9)
      = (Inl (TransactionCanceledException [ConditionalCheckFailed, NoReason]),
         [event_item stackA (event 1), event_item stackA (event 0)])"
proof -
  let ?seen = "[event_item stackA (event 0)]"
  let ?tbl = "[event_item stackA (event 1), event_item stackA (event 0)]"
  have ids: "stored_ids (namespace stackA) ?seen = [0]"
    by (simp add: eval_defs)
  have fails: "fst (commitEvent stackA ?tbl (event 9\<lparr>id_ev := 1\<rparr>))
      = Inl (TransactionCanceledException [ConditionalCheckFailed, NoReason])"
    by (simp add: eval_defs)
  note T = commitAnonymousEvent_single_attempt [of stackA ?seen small ?tbl "event 9", unfolded Let_def ids]
  have a: "nextEventId small stackA ?seen = 1"
    using T by simp
  have b: "commitAnonymousEvent small stackA ?seen ?tbl (event 9)
             = commitEvent stackA ?tbl (event 9\<lparr>id_ev := 1\<rparr>)"
    using T by simp
  have c: "snd (commitAnonymousEvent small stackA ?seen ?tbl (event 9)) = ?tbl"
    using T fails b by simp
  show ?thesis
    using a b c fails by (simp add: prod_eq_iff)
qed

text \<open>
  C4 (the code departs from the claim). \<open>slice\<close> takes an end id and never uses it: on the
  stream holding ids 0 to 5 (events of 1 KB, so one page holds them all), \<open>slice(2, 4)\<close>
  returns the events with ids 2, 3, 4, 5, not only those with id \<open>< 4\<close>.
\<close>

theorem slice_ignores_end:
  "\<exists>rows. slice small stackA (run small six) (Some 2) (Some 4) = Inr rows
      \<and> map range_of rows = [2, 3, 4, 5]"
  by (simp add: eval_defs)

text \<open>
  C5, counterexample. A cache without a client: no entry exists for the key, and
  \<open>updateCache\<close> returns normally without storing the view.
\<close>

theorem updateCache_without_client_counterexample:
  "ddb_get views_key [] (namespace cacheNone, ''summary'') = None
   \<and> updateCache cacheNone [] ''summary'' (view 10) = (Inr (), [])"
  by (simp add: ddb_get_def updateCache_def ddbViewCache_def)

text \<open>
  C5, amended. For a cache that has a client and a view whose payload has no
  \<open>namespace\<close> and no \<open>viewName\<close> property: when no entry exists for
  (namespace, identifier), or the entry's \<open>eventId\<close> is less than the view's,
  \<open>updateCache\<close> returns normally and the view is stored under that key, as the item
  that has the namespace of the cache, the identifier as \<open>viewName\<close>, the \<open>eventId\<close> and
  every property of the view; when the entry's \<open>eventId\<close> is greater than or equal to the
  view's, the table is left as it was.
\<close>

theorem updateCache_conditional:
  assumes "ddb options = Some d"
      and "payload_view cv ''namespace'' = None" and "payload_view cv ''viewName'' = None"
  shows "let k = (namespace options, identifier);
             old = ddb_get views_key tbl k;
             res = updateCache options tbl identifier cv
         in ((old = None \<or> (\<exists>it e. old = Some it \<and> it ''eventId'' = Some (N e) \<and> e < eventId cv))
               \<longrightarrow> fst res = Inr ()
                   \<and> ddb_get views_key (snd res) k
                       = Some ((payload_view cv)(''eventId'' \<mapsto> N (eventId cv),
                                 ''namespace'' \<mapsto> S (namespace options),
                                 ''viewName'' \<mapsto> S identifier)))
          \<and> ((\<exists>it e. old = Some it \<and> it ''eventId'' = Some (N e) \<and> eventId cv \<le> e)
               \<longrightarrow> snd res = tbl)"
proof -
  have item: "cache_item options identifier cv
      = (payload_view cv)(''eventId'' \<mapsto> N (eventId cv),
           ''namespace'' \<mapsto> S (namespace options), ''viewName'' \<mapsto> S identifier)"
    using assms(2,3)
    by (auto simp: cache_item_def object_view_def map_add_def fun_eq_iff split: option.splits)
  show ?thesis
    unfolding updateCache_with_client [OF assms(1) cache_item_key [OF assms(2,3)]] Let_def
    using cache_item_key [OF assms(2,3), of options "identifier"]
    by (auto simp: holds_less_eventId ddb_get_write item [symmetric])
qed

theorem updateCache_conditional_witness:
  "ddb cacheA = Some (DynamoDBDocument ''us-west-2'')
   \<and> fst (updateCache cacheA [] ''summary'' (view 10)) = Inr ()
   \<and> map_option (\<lambda>it. (it ''total'', it ''eventId'', it ''namespace'', it ''viewName''))
        (getFromCache cacheA (snd (updateCache cacheA [] ''summary'' (view 10))) ''summary'')
       = Some (Some (N 1000), Some (N 10), Some (S ''GET_v1''), Some (S ''summary''))
   \<and> snd (updateCache cacheA [cache_item cacheA ''summary'' (view 10)] ''summary'' (view 5))
       = [cache_item cacheA ''summary'' (view 10)]"
proof -
  let ?t = "[cache_item cacheA ''summary'' (view 10)]"
  have client: "ddb cacheA = Some (DynamoDBDocument ''us-west-2'')"
    by (simp add: ddbViewCache_def)
  have ns: "namespace cacheA = ''GET_v1''"
    by (simp add: ddbViewCache_def)
  have p10: "payload_view (view 10) ''namespace'' = None" "payload_view (view 10) ''viewName'' = None"
    by simp_all
  have p5: "payload_view (view 5) ''namespace'' = None" "payload_view (view 5) ''viewName'' = None"
    by simp_all
  have fresh: "ddb_get views_key [] (namespace cacheA, ''summary'') = None"
    by (simp add: ddb_get_def)
  have old: "ddb_get views_key ?t (namespace cacheA, ''summary'') = Some (cache_item cacheA ''summary'' (view 10))"
    by (simp add: ddb_get_def views_key_def cache_item_def map_add_def object_view_def ddbViewCache_def)
  have oldid: "cache_item cacheA ''summary'' (view 10) ''eventId'' = Some (N 10)"
    by (simp add: cache_item_attrs)
  have a: "fst (updateCache cacheA [] ''summary'' (view 10)) = Inr ()
      \<and> ddb_get views_key (snd (updateCache cacheA [] ''summary'' (view 10))) (''GET_v1'', ''summary'')
          = Some ((payload_view (view 10))(''eventId'' \<mapsto> N 10,
                    ''namespace'' \<mapsto> S ''GET_v1'', ''viewName'' \<mapsto> S ''summary''))"
    using updateCache_conditional [OF client p10, of "''summary''" "[]"] fresh
    by (simp add: Let_def ns)
  have b: "snd (updateCache cacheA ?t ''summary'' (view 5)) = ?t"
    using updateCache_conditional [OF client p5, of "''summary''" ?t] old oldid
    by (simp add: Let_def)
  show ?thesis
    using client a b by (simp add: getFromCache_def ns)
qed

text \<open>
  C6, counterexample. With a cache that has no client, after \<open>put(id1, {eventId: 10})\<close> and
  \<open>put(id1, {eventId: 5})\<close> the lookup of \<open>id1\<close> returns nothing.
\<close>

theorem view_cache_without_client_counterexample:
  "getFromCache cacheNone
     (snd (updateCache cacheNone (snd (updateCache cacheNone [] ''id1'' (view 10))) ''id1'' (view 5)))
     ''id1'' = None"
  by (simp add: getFromCache_def updateCache_def ddbViewCache_def)

text \<open>
  C6, amended. Under every key of the views table the stored \<open>eventId\<close> never decreases,
  whatever sequence of \<open>updateCache\<close> calls runs (any caches, identifiers and views). For a
  cache that has a client, a key with no entry yet and views without \<open>namespace\<close> and
  \<open>viewName\<close> properties: after the puts of \<open>eventId\<close> 10 and then 5, \<open>getFromCache\<close>
  returns the item of the \<open>eventId\<close> 10 view, and after a further put of \<open>eventId\<close> 11 it
  returns the item of the \<open>eventId\<close> 11 view.
\<close>

theorem view_eventId_monotone:
  assumes "ddb options = Some d"
      and "ddb_get views_key tbl (namespace options, id1) = None"
      and "eventId v10 = 10" "payload_view v10 ''namespace'' = None" "payload_view v10 ''viewName'' = None"
      and "eventId v5 = 5" "payload_view v5 ''namespace'' = None" "payload_view v5 ''viewName'' = None"
      and "eventId v11 = 11" "payload_view v11 ''namespace'' = None" "payload_view v11 ''viewName'' = None"
  shows "(\<forall>start calls k e. stored_eventId start k = Some e
            \<longrightarrow> (\<exists>e'. stored_eventId (updates start calls) k = Some e' \<and> e \<le> e'))
       \<and> (let t1 = snd (updateCache options tbl id1 v10);
              t2 = snd (updateCache options t1 id1 v5);
              t3 = snd (updateCache options t2 id1 v11)
          in getFromCache options t2 id1 = Some (cache_item options id1 v10)
           \<and> getFromCache options t3 id1 = Some (cache_item options id1 v11))"
proof -
  let ?k = "(namespace options, id1)"
  let ?i10 = "cache_item options id1 v10"
  let ?i11 = "cache_item options id1 v11"
  note k10 = cache_item_key [OF assms(4,5), of options id1]
  note k5 = cache_item_key [OF assms(7,8), of options id1]
  note k11 = cache_item_key [OF assms(10,11), of options id1]
  let ?t1 = "ddb_write views_key tbl ?i10"
  have t1: "snd (updateCache options tbl id1 v10) = ?t1"
    unfolding updateCache_with_client [OF assms(1) k10] using assms(2) by simp
  have g1: "ddb_get views_key ?t1 ?k = Some ?i10"
    using k10 by (simp add: ddb_get_write)
  have t2: "snd (updateCache options ?t1 id1 v5) = ?t1"
    unfolding updateCache_with_client [OF assms(1) k5]
    using g1 assms(3,6) by (simp add: cache_item_attrs)
  let ?t3 = "ddb_write views_key ?t1 ?i11"
  have t3: "snd (updateCache options ?t1 id1 v11) = ?t3"
    unfolding updateCache_with_client [OF assms(1) k11]
    using g1 assms(3,9) by (simp add: cache_item_attrs)
  have g3: "ddb_get views_key ?t3 ?k = Some ?i11"
    using k11 by (simp add: ddb_get_write)
  have ex: "getFromCache options ?t1 id1 = Some ?i10 \<and> getFromCache options ?t3 id1 = Some ?i11"
    using assms(1) g1 g3 by (simp add: getFromCache_def)
  show ?thesis
    using stored_eventId_updates ex by (simp add: Let_def t1 t2 t3)
qed

theorem view_eventId_monotone_witness:
  "ddb cacheA = Some (DynamoDBDocument ''us-west-2'')
   \<and> getFromCache cacheA
       (snd (updateCache cacheA (snd (updateCache cacheA [] ''id1'' (view 10))) ''id1'' (view 5)))
       ''id1'' = Some (cache_item cacheA ''id1'' (view 10))
   \<and> cache_item cacheA ''id1'' (view 10) ''eventId'' = Some (N 10)
   \<and> stored_eventId (updates [cache_item cacheA ''id1'' (view 10)]
        [(cacheA, ''id1'', view 5), (cacheA, ''id1'', view 11), (cacheA, ''id1'', view 7)])
        (''GET_v1'', ''id1'') = Some 11"
proof -
  have client: "ddb cacheA = Some (DynamoDBDocument ''us-west-2'')"
    by (simp add: ddbViewCache_def)
  have fresh: "ddb_get views_key [] (namespace cacheA, ''id1'') = None"
    by (simp add: ddb_get_def)
  note T = view_eventId_monotone [OF client fresh, of "view 10" "view 5" "view 11", unfolded Let_def]
  have T': "(\<forall>start calls k e. stored_eventId start k = Some e
            \<longrightarrow> (\<exists>e'. stored_eventId (updates start calls) k = Some e' \<and> e \<le> e'))
     \<and> getFromCache cacheA
       (snd (updateCache cacheA (snd (updateCache cacheA [] ''id1'' (view 10))) ''id1'' (view 5)))
       ''id1'' = Some (cache_item cacheA ''id1'' (view 10))"
    using T by simp
  have last: "stored_eventId (updates [cache_item cacheA ''id1'' (view 10)]
        [(cacheA, ''id1'', view 5), (cacheA, ''id1'', view 11), (cacheA, ''id1'', view 7)])
        (''GET_v1'', ''id1'') = Some 11"
    by (simp add: view_defs stored_eventId_def)
  show ?thesis
    using client T' last by (simp add: cache_item_attrs)
qed

text \<open>
  C8, counterexample. The identities (\<open>a|b\<close>, \<open>c\<close>) and (\<open>a\<close>, \<open>b|c\<close>) differ and
  \<open>createStack\<close> binds both to the namespace \<open>a|b|c\<close>.
\<close>

theorem createStack_namespace_collision:
  "(''a|b'', ''c'') \<noteq> (''a'', ''b|c'')
   \<and> namespace (fst (createStack ''events'' (None, Map.empty) ''a|b'' ''c''))
     = namespace (fst (createStack ''events'' (None, Map.empty) ''a'' ''b|c''))"
  by (simp add: createStack_def name_def Let_def)

text \<open>
  C8, amended. Two different identities are bound to different namespaces when neither
  stream-set name contains the separator \<open>|\<close>, and also when neither stream name
  contains it.
\<close>

theorem createStack_namespace_distinct:
  assumes "(s1, n1) \<noteq> (s2, n2)"
      and "(CHR ''|'' \<notin> set s1 \<and> CHR ''|'' \<notin> set s2) \<or> (CHR ''|'' \<notin> set n1 \<and> CHR ''|'' \<notin> set n2)"
  shows "namespace (fst (createStack tn st s1 n1)) \<noteq> namespace (fst (createStack tn' st' s2 n2))"
  using assms name_inject_left [of s1 s2 n1 n2] name_inject_right [of n1 n2 s1 s2]
  by (auto simp: createStack_def Let_def)

theorem createStack_namespace_distinct_witness:
  "(''orders'', ''42'') \<noteq> (''orders'', ''43'')
   \<and> CHR ''|'' \<notin> set ''orders''
   \<and> namespace (fst (createStack ''events'' (None, Map.empty) ''orders'' ''42'')) = ''orders|42''
   \<and> namespace (fst (createStack ''events'' (None, Map.empty) ''orders'' ''43''))
       \<noteq> namespace (fst (createStack ''events'' (None, Map.empty) ''orders'' ''42''))"
proof -
  have d: "(''orders'', ''43'') \<noteq> (''orders'', ''42'')" by simp
  have c: "(CHR ''|'' \<notin> set ''orders'' \<and> CHR ''|'' \<notin> set ''orders'')
           \<or> (CHR ''|'' \<notin> set ''43'' \<and> CHR ''|'' \<notin> set ''42'')" by simp
  show ?thesis
    using createStack_namespace_distinct [OF d c, of "''events''" "(None, Map.empty)" "''events''" "(None, Map.empty)"]
    by (simp add: createStack_def name_def Let_def)
qed

text \<open>
  C10. The item \<open>updateCache\<close> sends has the \<open>namespace\<close> and the \<open>viewName\<close> of the payload
  wherever the payload has them, and those of the cache and the identifier only where it
  has not. The only key of the table whose entry a call can change is the key read from
  that item, and with a client and no entry under that key the item is stored there: a
  payload carrying such a property makes the call write under another key than
  (\<open>options.namespace\<close>, identifier).
\<close>

theorem updateCache_key_from_payload:
  "let item = cache_item options identifier cv;
       res = updateCache options tbl identifier cv
   in item ''namespace''
        = (case payload_view cv ''namespace'' of Some x \<Rightarrow> Some x | None \<Rightarrow> Some (S (namespace options)))
    \<and> item ''viewName''
        = (case payload_view cv ''viewName'' of Some y \<Rightarrow> Some y | None \<Rightarrow> Some (S identifier))
    \<and> (\<forall>k. ddb_get views_key (snd res) k \<noteq> ddb_get views_key tbl k
           \<longrightarrow> views_key item = Some k \<and> ddb_get views_key (snd res) k = Some item)
    \<and> (\<forall>d k. ddb options = Some d \<and> views_key item = Some k \<and> ddb_get views_key tbl k = None
           \<longrightarrow> ddb_get views_key (snd res) k = Some item)"
proof -
  let ?item = "cache_item options identifier cv"
  let ?res = "updateCache options tbl identifier cv"
  have changed: "views_key ?item = Some k \<and> ddb_get views_key (snd ?res) k = Some ?item"
    if "ddb_get views_key (snd ?res) k \<noteq> ddb_get views_key tbl k" for k
    using updateCache_snd [of options tbl "identifier" cv] that
    by (auto simp: ddb_get_write split: if_splits)
  have stored: "ddb_get views_key (snd ?res) k = Some ?item"
    if "ddb options = Some d" "views_key ?item = Some k" "ddb_get views_key tbl k = None" for d k
    unfolding updateCache_with_client [OF that(1,2)] using that(2,3) by (simp add: ddb_get_write)
  have p3: "\<forall>k. ddb_get views_key (snd ?res) k \<noteq> ddb_get views_key tbl k
           \<longrightarrow> views_key ?item = Some k \<and> ddb_get views_key (snd ?res) k = Some ?item"
    using changed by blast
  have p4: "\<forall>d k. ddb options = Some d \<and> views_key ?item = Some k \<and> ddb_get views_key tbl k = None
           \<longrightarrow> ddb_get views_key (snd ?res) k = Some ?item"
    using stored by blast
  show ?thesis
    unfolding Let_def
  proof (intro conjI)
    show "?item ''namespace''
        = (case payload_view cv ''namespace'' of Some x \<Rightarrow> Some x | None \<Rightarrow> Some (S (namespace options)))"
      by (rule cache_item_attrs)
    show "?item ''viewName''
        = (case payload_view cv ''viewName'' of Some y \<Rightarrow> Some y | None \<Rightarrow> Some (S identifier))"
      by (rule cache_item_attrs)
    show "\<forall>k. ddb_get views_key (snd ?res) k \<noteq> ddb_get views_key tbl k
           \<longrightarrow> views_key ?item = Some k \<and> ddb_get views_key (snd ?res) k = Some ?item"
      by (rule p3)
    show "\<forall>d k. ddb options = Some d \<and> views_key ?item = Some k \<and> ddb_get views_key tbl k = None
           \<longrightarrow> ddb_get views_key (snd ?res) k = Some ?item"
      by (rule p4)
  qed
qed

theorem updateCache_key_from_payload_witness:
  "views_key (cache_item cacheA ''summary'' renamed) = Some (''GET_v1'', ''other'')
   \<and> getFromCache cacheA (snd (updateCache cacheA [] ''summary'' renamed)) ''other''
       = Some (cache_item cacheA ''summary'' renamed)
   \<and> getFromCache cacheA (snd (updateCache cacheA [] ''summary'' renamed)) ''summary'' = None"
proof -
  have client: "ddb cacheA = Some (DynamoDBDocument ''us-west-2'')"
    by (simp add: ddbViewCache_def)
  have key: "views_key (cache_item cacheA ''summary'' renamed) = Some (''GET_v1'', ''other'')"
    by (simp add: views_key_def cache_item_def object_view_def map_add_def ddbViewCache_def)
  have fresh: "ddb_get views_key [] (''GET_v1'', ''other'') = None"
    by (simp add: ddb_get_def)
  note T = updateCache_key_from_payload [of cacheA "''summary''" renamed "[]", unfolded Let_def]
  note changed = T [THEN conjunct2, THEN conjunct2, THEN conjunct1, rule_format]
  note stored = T [THEN conjunct2, THEN conjunct2, THEN conjunct2, rule_format]
  have a: "ddb_get views_key (snd (updateCache cacheA [] ''summary'' renamed)) (''GET_v1'', ''other'')
             = Some (cache_item cacheA ''summary'' renamed)"
    by (rule stored [OF conjI [OF client conjI [OF key fresh]]])
  have b: "ddb_get views_key (snd (updateCache cacheA [] ''summary'' renamed)) (''GET_v1'', ''summary'')
             = ddb_get views_key [] (''GET_v1'', ''summary'')"
  proof (rule ccontr)
    assume "ddb_get views_key (snd (updateCache cacheA [] ''summary'' renamed)) (''GET_v1'', ''summary'')
             \<noteq> ddb_get views_key [] (''GET_v1'', ''summary'')"
    then have "views_key (cache_item cacheA ''summary'' renamed) = Some (''GET_v1'', ''summary'')"
      by (rule changed [THEN conjunct1])
    with key show False by simp
  qed
  show ?thesis
    using a b key client by (simp add: getFromCache_def ddb_get_def ddbViewCache_def)
qed

end
